theory Spec2Isabelle
  imports Main "HOL-Library.Sublist"
begin

section \<open>Python strings\<close>

text \<open>
  A Python \<open>str\<close> is a sequence of Unicode code points. A code point is modelled as a
  natural number and a string as a list of code points, so that no input string is
  excluded. ASCII literals are written as Isabelle strings and injected with \<open>py\<close>.
\<close>

type_synonym pychar = nat
type_synonym pystr = "pychar list"

definition py :: "string \<Rightarrow> pystr" where
  "py s = map of_char s"

definition NL :: pychar where
  "NL = 10"

definition HASH :: pychar where
  "HASH = 35"

definition QUOTE :: pychar where
  "QUOTE = 34"

definition BACKSLASH :: pychar where
  "BACKSLASH = 92"

text \<open>
  \<open>str.isspace\<close> on one character, which is also what \<open>str.strip()\<close> removes and what
  \<open>\s\<close> matches in a \<open>str\<close> pattern of the \<open>re\<close> module: the code points that CPython
  classifies as whitespace.
\<close>

definition isspace :: "pychar \<Rightarrow> bool" where
  "isspace c \<longleftrightarrow>
     (9 \<le> c \<and> c \<le> 13) \<or> (28 \<le> c \<and> c \<le> 32) \<or> c = 133 \<or> c = 160 \<or> c = 5760 \<or>
     (8192 \<le> c \<and> c \<le> 8202) \<or> c = 8232 \<or> c = 8233 \<or> c = 8239 \<or> c = 8287 \<or>
     c = 12288"

definition lstrip :: "pystr \<Rightarrow> pystr" where
  "lstrip s = dropWhile isspace s"

definition rstrip :: "pystr \<Rightarrow> pystr" where
  "rstrip s = rev (dropWhile isspace (rev s))"

definition strip :: "pystr \<Rightarrow> pystr" where
  "strip s = rstrip (lstrip s)"

text \<open>A string is trimmed when \<open>strip\<close> removes nothing from it.\<close>

definition trimmed :: "pystr \<Rightarrow> bool" where
  "trimmed s \<longleftrightarrow> strip s = s"

text \<open>Python's \<open>[x] * n\<close> and \<open>xs[:n]\<close> for an arbitrary integer \<open>n\<close>.\<close>

definition py_repeat :: "'a \<Rightarrow> int \<Rightarrow> 'a list" where
  "py_repeat x n = replicate (nat n) x"

definition py_upto :: "'a list \<Rightarrow> int \<Rightarrow> 'a list" where
  "py_upto xs n = (if 0 \<le> n then take (nat n) xs else take (length xs - nat (- n)) xs)"

section \<open>The segmenter: \<open>markdown_builder.split_markdown_by_slides\<close>\<close>

text \<open>
  The regular expression \<open>#{1,6}\s\<close> anchored at the start of \<open>s\<close>: between one and six
  \<open>#\<close> characters followed by one whitespace character.
\<close>

definition starts_heading :: "pystr \<Rightarrow> bool" where
  "starts_heading s \<longleftrightarrow>
     list_ex (\<lambda>k. take k s = replicate k HASH \<and> k < length s \<and> isspace (s ! k)) [1..<7]"

text \<open>
  \<open>re.split(r"\n(?=#{1,6}\s)", s)\<close>: the string is cut at every newline that is directly
  followed by a heading marker; the newline is dropped and the marker stays at the start of
  the next part. The result always has at least one part.
\<close>

fun re_split :: "pystr \<Rightarrow> pystr list" where
  "re_split [] = [[]]"
| "re_split (c # cs) =
     (if c = NL \<and> starts_heading cs then [] # re_split cs
      else (case re_split cs of [] \<Rightarrow> [[c]] | p # ps \<Rightarrow> (c # p) # ps))"

text \<open>The loop \<open>while len(result) < slide_count: result.append("")\<close>.\<close>

function pad_result :: "pystr list \<Rightarrow> int \<Rightarrow> pystr list" where
  "pad_result result slide_count =
     (if int (length result) < slide_count then pad_result (result @ [[]]) slide_count
      else result)"
  by pat_completeness auto
termination
  by (relation "measure (\<lambda>(result, slide_count). nat (slide_count - int (length result)))") auto

declare pad_result.simps [simp del]

text \<open>Lines 41 to 48: the parts are handed out to the slides in order.\<close>

definition header_led :: "pystr list \<Rightarrow> int \<Rightarrow> pystr list" where
  "header_led parts slide_count =
     (if slide_count \<le> int (length parts) then map strip (py_upto parts slide_count)
      else pad_result (map strip parts) slide_count)"

text \<open>Lines 26 to 34: the loop over \<open>range(slide_count)\<close> of the leading-text case.\<close>

definition intro_led :: "pystr list \<Rightarrow> int \<Rightarrow> pystr list" where
  "intro_led parts slide_count =
     map (\<lambda>i. if i = 0 then (if parts \<noteq> [] then parts ! 0 else [])
               else if i < length parts then strip (parts ! i)
               else [])
         [0..<nat slide_count]"

definition split_markdown_by_slides :: "pystr \<Rightarrow> int \<Rightarrow> pystr list" where
  "split_markdown_by_slides full_md slide_count =
     (if full_md = [] \<or> slide_count \<le> 0 then
        (if slide_count \<noteq> 0 then py_repeat [] (max 1 slide_count) else [])
      else
        let stripped = strip full_md in
        if stripped = [] then py_repeat [] slide_count
        else
          let parts = re_split stripped in
          if parts \<noteq> [] \<and> \<not> starts_heading (strip (parts ! 0)) then
            (if int (length parts) \<le> slide_count then intro_led parts slide_count
             else header_led ([parts ! 0] @ drop 1 parts) slide_count)
          else header_led parts slide_count)"

section \<open>The assembler: \<open>markdown_builder.build_markdown\<close>\<close>

text \<open>\<open>s.replace(old, new)\<close> for a one-character \<open>old\<close>.\<close>

definition replace_char :: "pychar \<Rightarrow> pystr \<Rightarrow> pystr \<Rightarrow> pystr" where
  "replace_char old new s = concat (map (\<lambda>c. if c = old then new else [c]) s)"

text \<open>\<open>"\n".join(lines)\<close>.\<close>

fun join_lines :: "pystr list \<Rightarrow> pystr" where
  "join_lines [] = []"
| "join_lines [l] = l"
| "join_lines (l # ls) = l @ NL # join_lines ls"

text \<open>The decimal digits that an f-string writes for a non-negative integer.\<close>

fun decimal :: "nat \<Rightarrow> pystr" where
  "decimal n = (if n < 10 then [48 + n] else decimal (n div 10) @ [48 + n mod 10])"

declare decimal.simps [simp del]

text \<open>Lines 81 and 82: one escaped speaker note as a YAML list item.\<close>

definition note_line :: "pystr \<Rightarrow> pystr" where
  "note_line n =
     (let n_esc = replace_char NL (py '' '')
                    (replace_char QUOTE [BACKSLASH, QUOTE]
                      (replace_char BACKSLASH [BACKSLASH, BACKSLASH] n))
      in py ''  - '' @ [QUOTE] @ n_esc @ [QUOTE])"

text \<open>Lines 84 and 85, for the key \<open>title\<close>.\<close>

definition title_line :: "pystr \<Rightarrow> pystr" where
  "title_line v =
     (let v_esc = replace_char QUOTE [BACKSLASH, QUOTE]
                    (replace_char BACKSLASH [BACKSLASH, BACKSLASH] v)
      in py ''title: '' @ [QUOTE] @ v_esc @ [QUOTE])"

text \<open>
  Lines 68 to 89. The dictionary \<open>frontmatter\<close> holds at most the key \<open>title\<close> with a string
  and then the key \<open>speaker_notes\<close> with a list, in this insertion order, so the loop over its
  items takes its second branch for the title and its first for the notes; its last branch
  is never taken. \<open>None\<close> and the empty string are both false as a title.
\<close>

definition frontmatter_lines :: "pystr option \<Rightarrow> pystr list \<Rightarrow> pystr list" where
  "frontmatter_lines title speaker_notes =
     (let notes_for_yaml = filter (\<lambda>n. n \<noteq> []) speaker_notes;
          title_text = (case title of None \<Rightarrow> [] | Some t \<Rightarrow> t)
      in if title_text \<noteq> [] \<or> notes_for_yaml \<noteq> [] then
           [py ''---'']
           @ (if title_text \<noteq> [] then [title_line title_text] else [])
           @ (if notes_for_yaml \<noteq> [] then py ''speaker_notes:'' # map note_line notes_for_yaml
              else [])
           @ [py ''---'', []]
         else [])"

text \<open>Lines 92 and 93: one section per slide.\<close>

definition ensure_sections :: "pystr list \<Rightarrow> int \<Rightarrow> pystr list" where
  "ensure_sections body_sections slide_count =
     (let sections =
            (if slide_count \<le> int (length body_sections) then body_sections
             else body_sections @ py_repeat [] (slide_count - int (length body_sections)))
      in py_upto sections slide_count)"

text \<open>Line 96: the embed reference of page \<open>n\<close>.\<close>

definition embed_line :: "pystr \<Rightarrow> nat \<Rightarrow> pystr" where
  "embed_line pdf_ref n = py ''![['' @ pdf_ref @ py ''#page='' @ decimal n @ py '']]''"

text \<open>Lines 96 to 101: the lines that one iteration of the loop appends.\<close>

definition slide_block :: "pystr \<Rightarrow> nat \<times> pystr \<Rightarrow> pystr list" where
  "slide_block pdf_ref = (\<lambda>(n, section_text).
     [embed_line pdf_ref n, []]
     @ (if section_text \<noteq> [] then [strip section_text, []] else [])
     @ [[]])"

text \<open>The loop over \<open>enumerate(sections, start=1)\<close>, one block of lines per slide.\<close>

definition body_blocks :: "pystr \<Rightarrow> pystr list \<Rightarrow> pystr list list" where
  "body_blocks pdf_ref sections =
     map (slide_block pdf_ref) (zip [1..<Suc (length sections)] sections)"

definition build_lines ::
  "pystr \<Rightarrow> int \<Rightarrow> pystr list \<Rightarrow> pystr list \<Rightarrow> pystr option \<Rightarrow> pystr list" where
  "build_lines pdf_basename slide_count speaker_notes body_sections title =
     (let pdf_ref = pdf_basename @ py ''.pdf''
      in frontmatter_lines title speaker_notes
         @ concat (body_blocks pdf_ref (ensure_sections body_sections slide_count)))"

definition build_markdown ::
  "pystr \<Rightarrow> int \<Rightarrow> pystr list \<Rightarrow> pystr list \<Rightarrow> pystr option \<Rightarrow> pystr" where
  "build_markdown pdf_basename slide_count speaker_notes body_sections title =
     strip (join_lines (build_lines pdf_basename slide_count speaker_notes body_sections title))
     @ [NL]"

section \<open>Reading embed references back\<close>

text \<open>
  The round-trip property of the spec reads the embed references back out of the assembled
  text. No function of the repository does that; the reader below follows the pattern
  that line 96 writes: the opener \<open>![[\<close>, the reference to the rendered document, \<open>#page=\<close>,
  a non-empty run of decimal digits, and the closer \<open>]]\<close>. It looks for the pattern at every
  position of the text and returns the page numbers in the order of their positions.
\<close>

definition isdigit :: "pychar \<Rightarrow> bool" where
  "isdigit c \<longleftrightarrow> 48 \<le> c \<and> c \<le> 57"

definition read_decimal :: "pystr \<Rightarrow> nat" where
  "read_decimal ds = foldl (\<lambda>a c. 10 * a + (c - 48)) 0 ds"

definition embed_at :: "pystr \<Rightarrow> pystr \<Rightarrow> nat option" where
  "embed_at pre text =
     (if prefix pre text then
        (let rest = drop (length pre) text;
             ds = takeWhile isdigit rest
         in if ds \<noteq> [] \<and> prefix (py '']]'') (dropWhile isdigit rest)
            then Some (read_decimal ds) else None)
      else None)"

fun parse_embeds :: "pystr \<Rightarrow> pystr \<Rightarrow> nat list" where
  "parse_embeds pre [] = []"
| "parse_embeds pre (c # cs) =
     (case embed_at pre (c # cs) of
        Some n \<Rightarrow> n # parse_embeds pre cs
      | None \<Rightarrow> parse_embeds pre cs)"

definition embed_refs :: "pystr \<Rightarrow> pystr \<Rightarrow> nat list" where
  "embed_refs pdf_basename text =
     parse_embeds (py ''![['' @ (pdf_basename @ py ''.pdf'') @ py ''#page='') text"

text \<open>Whether a text contains the opener \<open>![[\<close> of an embed reference.\<close>

fun has_opener :: "pystr \<Rightarrow> bool" where
  "has_opener (a # b # c # r) \<longleftrightarrow> (a = 33 \<and> b = 91 \<and> c = 91) \<or> has_opener (b # c # r)"
| "has_opener _ \<longleftrightarrow> False"

section \<open>The pipeline: \<open>converter.convert_one\<close> and \<open>worker.convert_one_worker\<close>\<close>

text \<open>
  An exception, with the text that \<open>str(e)\<close> gives: \<open>Exn\<close> is an instance of \<open>Exception\<close>,
  which a clause \<open>except Exception\<close> catches, and \<open>BaseExn\<close> is any other \<open>BaseException\<close>
  (\<open>KeyboardInterrupt\<close>, \<open>SystemExit\<close>), which such a clause lets pass. A call that may raise
  returns an outcome: \<open>Inl\<close> the exception raised, \<open>Inr\<close> the value returned.
\<close>

datatype exn = Exn pystr | BaseExn pystr

type_synonym 'a outcome = "exn + 'a"

definition and_then :: "'a outcome \<Rightarrow> ('a \<Rightarrow> 'b outcome) \<Rightarrow> 'b outcome" where
  "and_then m f = (case m of Inl e \<Rightarrow> Inl e | Inr x \<Rightarrow> f x)"

text \<open>The statement \<open>try: m except Exception as e: handler(str(e))\<close>.\<close>

definition except_exception :: "'a outcome \<Rightarrow> (pystr \<Rightarrow> 'a outcome) \<Rightarrow> 'a outcome" where
  "except_exception m handler =
     (case m of
        Inr x \<Rightarrow> Inr x
      | Inl (Exn msg) \<Rightarrow> handler msg
      | Inl (BaseExn msg) \<Rightarrow> Inl (BaseExn msg))"

text \<open>The dictionary with the keys \<open>success\<close>, \<open>path\<close> and \<open>error\<close> that a conversion returns.\<close>

record conversion_result =
  success :: bool
  path :: pystr
  error :: "pystr option"

text \<open>
  A \<open>MarkItDown\<close> instance is its \<open>convert\<close> method: from the path of the input file to the
  \<open>text_content\<close> of the result, which may be \<open>None\<close>.
\<close>

type_synonym markitdown = "pystr \<Rightarrow> pystr option outcome"

text \<open>
  What the collaborators of \<open>convert_one\<close> do in one run: the file system, the external
  renderer, the readers of the presentation and of the rendered document. Each of them is
  called at most once per run, so a function of the arguments describes it fully. Paths are
  held as their strings.
\<close>

record pipeline_env =
  resolve :: "pystr \<Rightarrow> pystr outcome"
  path_stem :: "pystr \<Rightarrow> pystr"
  new_markitdown :: "markitdown outcome"
  convert_pptx_to_pdf :: "pystr \<Rightarrow> pystr \<Rightarrow> pystr option outcome"
  set_pdf_metadata :: "pystr \<Rightarrow> pystr \<Rightarrow> pystr \<Rightarrow> unit outcome"
  get_slide_count :: "pystr \<Rightarrow> int outcome"
  get_pdf_page_count :: "pystr \<Rightarrow> int outcome"
  get_speaker_notes :: "pystr \<Rightarrow> pystr list outcome"
  md_path_of :: "pystr \<Rightarrow> pystr \<Rightarrow> pystr"
  write_text :: "pystr \<Rightarrow> pystr \<Rightarrow> unit outcome"
  import_converter :: "unit outcome"

text \<open>Lines 49 to 51 of \<open>convert_one\<close>: the speaker notes brought to the slide count.\<close>

definition normalize_notes :: "pystr list \<Rightarrow> int \<Rightarrow> pystr list" where
  "normalize_notes speaker_notes slide_count =
     (let speaker_notes =
            (if int (length speaker_notes) < slide_count
             then speaker_notes @ py_repeat [] (slide_count - int (length speaker_notes))
             else speaker_notes)
      in py_upto speaker_notes slide_count)"

text \<open>Lines 54 to 58: an extractor that raises an \<open>Exception\<close> gives the empty body.\<close>

definition extract_body :: "markitdown \<Rightarrow> pystr \<Rightarrow> pystr outcome" where
  "extract_body markitdown_instance pptx_path =
     except_exception
       (and_then (markitdown_instance pptx_path) (\<lambda>text_content.
          Inr (strip (case text_content of None \<Rightarrow> [] | Some t \<Rightarrow> t))))
       (\<lambda>msg. Inr [])"

definition failure :: "pystr \<Rightarrow> pystr \<Rightarrow> conversion_result" where
  "failure p msg = \<lparr>success = False, path = p, error = Some msg\<rparr>"

text \<open>Lines 34 to 74: the body of the \<open>try\<close> statement of \<open>convert_one\<close>.\<close>

definition run_pipeline ::
  "pipeline_env \<Rightarrow> markitdown \<Rightarrow> pystr \<Rightarrow> pystr \<Rightarrow> pystr \<Rightarrow> conversion_result outcome" where
  "run_pipeline env markitdown_instance pptx_path output_dir stem =
     and_then (convert_pptx_to_pdf env pptx_path output_dir) (\<lambda>pdf_path.
       case pdf_path of
         None \<Rightarrow> Inr (failure pptx_path (py ''PDF conversion failed (LibreOffice)''))
       | Some pdf \<Rightarrow>
           and_then (set_pdf_metadata env pdf stem pptx_path) (\<lambda>_.
           and_then (get_slide_count env pptx_path) (\<lambda>slide_count.
           and_then (if slide_count \<le> 0 then get_pdf_page_count env pdf else Inr slide_count)
             (\<lambda>slide_count.
           if slide_count \<le> 0
           then Inr (failure pptx_path (py ''No slides found or invalid file''))
           else
             and_then (get_speaker_notes env pptx_path) (\<lambda>speaker_notes.
             and_then (extract_body markitdown_instance pptx_path) (\<lambda>full_md_body.
               let speaker_notes = normalize_notes speaker_notes slide_count;
                   body_sections = split_markdown_by_slides full_md_body slide_count;
                   md_content = build_markdown stem slide_count speaker_notes body_sections
                                  (Some stem)
               in and_then (write_text env (md_path_of env output_dir stem) md_content) (\<lambda>_.
                    Inr \<lparr>success = True, path = pptx_path, error = None\<rparr>)))))))"

text \<open>
  \<open>convert_one\<close>: lines 26 to 31 run before the \<open>try\<close> statement, so what they raise leaves
  the function; an \<open>Exception\<close> of the body is caught by line 75 and becomes a result.
\<close>

definition convert_one ::
  "pipeline_env \<Rightarrow> pystr \<Rightarrow> pystr \<Rightarrow> markitdown option \<Rightarrow> conversion_result outcome" where
  "convert_one env pptx_path output_dir markitdown_instance =
     and_then (resolve env pptx_path) (\<lambda>pptx_path.
     and_then (resolve env output_dir) (\<lambda>output_dir.
     let stem = path_stem env pptx_path in
     and_then (case markitdown_instance of None \<Rightarrow> new_markitdown env | Some m \<Rightarrow> Inr m)
       (\<lambda>markitdown_instance.
     except_exception (run_pipeline env markitdown_instance pptx_path output_dir stem)
       (\<lambda>msg. Inr (failure pptx_path msg)))))"

text \<open>
  \<open>convert_one_worker\<close>: the import and the call are both inside its \<open>try\<close> statement.
  \<open>worker_markitdown\<close> is the module-level instance of the worker process.
\<close>

definition convert_one_worker ::
  "pipeline_env \<Rightarrow> markitdown option \<Rightarrow> pystr \<Rightarrow> pystr \<Rightarrow> conversion_result outcome" where
  "convert_one_worker env worker_markitdown pptx_path output_dir =
     except_exception
       (and_then (import_converter env)
          (\<lambda>_. convert_one env pptx_path output_dir worker_markitdown))
       (\<lambda>msg. Inr (failure pptx_path msg))"

section \<open>The scheduler: \<open>main.run_conversion\<close>\<close>

text \<open>Lines 64 and 65: the size of the worker pool. \<open>os.cpu_count()\<close> may be \<open>None\<close>.\<close>

definition max_workers :: "int option \<Rightarrow> nat \<Rightarrow> int" where
  "max_workers cpu_count n_files =
     (let cpus = (case cpu_count of None \<Rightarrow> 2 | Some c \<Rightarrow> if c = 0 then 2 else c);
          max_workers = max 1 (cpus - 1)
      in min max_workers (int n_files))"

text \<open>
  What the scheduler does to the outside, in order: the check for the renderer, the creation
  of the output directory, the start of the pool, the submission of a task, a call of the
  progress callback.
\<close>

datatype event =
  CheckLibreOffice
  | MakeDirs pystr
  | StartPool int
  | Submit pystr pystr
  | Progress nat nat "conversion_result option"

type_synonym progress_callback = "nat \<Rightarrow> nat \<Rightarrow> conversion_result option \<Rightarrow> unit outcome"

text \<open>
  The surroundings of one batch run: the file system, the machine and the worker pool.
  \<open>rglob\<close> lists what \<open>root.rglob("*")\<close> yields, \<open>suffix_lower\<close> is \<open>p.suffix.lower()\<close> and
  \<open>path_less\<close> is the order of \<open>Path\<close> objects. \<open>completion_order\<close> is the order in which
  \<open>as_completed\<close> yields the submitted tasks, and \<open>future_result\<close> is what \<open>fut.result()\<close>
  gives for a task: the dictionary the worker returned, or the exception of a crashed worker.
\<close>

record batch_env =
  is_dir :: "pystr \<Rightarrow> bool"
  rglob :: "pystr \<Rightarrow> pystr list outcome"
  is_file :: "pystr \<Rightarrow> bool"
  suffix_lower :: "pystr \<Rightarrow> pystr"
  path_less :: "pystr \<Rightarrow> pystr \<Rightarrow> bool"
  libreoffice_installed :: bool
  resolve_path :: "pystr \<Rightarrow> pystr outcome"
  mkdir :: "pystr \<Rightarrow> unit outcome"
  cpu_count :: "int option"
  relative_parent :: "pystr \<Rightarrow> pystr \<Rightarrow> pystr option"
  join_path :: "pystr \<Rightarrow> pystr \<Rightarrow> pystr"
  completion_order :: "(pystr \<times> pystr) list \<Rightarrow> (pystr \<times> pystr) list"
  future_result :: "pystr \<times> pystr \<Rightarrow> conversion_result outcome"

definition POWERPOINT_EXTENSIONS :: "pystr list" where
  "POWERPOINT_EXTENSIONS =
     [py ''.pptx'', py ''.ppt'', py ''.pot'', py ''.potx'', py ''.pps'', py ''.ppsx'']"

text \<open>Lines 31 to 33 of \<open>find_powerpoint_files\<close>: the loop over the entries under the root.\<close>

fun scan_entries :: "batch_env \<Rightarrow> pystr list \<Rightarrow> pystr list outcome" where
  "scan_entries env [] = Inr []"
| "scan_entries env (p # ps) =
     (if is_file env p \<and> suffix_lower env p \<in> set POWERPOINT_EXTENSIONS then
        and_then (resolve_path env p) (\<lambda>q.
        and_then (scan_entries env ps) (\<lambda>out. Inr (q # out)))
      else scan_entries env ps)"

text \<open>\<open>sorted(out)\<close>, as a stable insertion sort by the order of the paths.\<close>

fun insort_path :: "(pystr \<Rightarrow> pystr \<Rightarrow> bool) \<Rightarrow> pystr \<Rightarrow> pystr list \<Rightarrow> pystr list" where
  "insort_path lt x [] = [x]"
| "insort_path lt x (y # ys) =
     (if lt x y then x # y # ys else y # insort_path lt x ys)"

definition sorted_paths :: "(pystr \<Rightarrow> pystr \<Rightarrow> bool) \<Rightarrow> pystr list \<Rightarrow> pystr list" where
  "sorted_paths lt xs = foldl (\<lambda>acc x. insort_path lt x acc) [] xs"

definition find_powerpoint_files :: "batch_env \<Rightarrow> pystr \<Rightarrow> pystr list outcome" where
  "find_powerpoint_files env root =
     and_then (rglob env root) (\<lambda>entries.
     and_then (scan_entries env entries) (\<lambda>out.
     Inr (sorted_paths (path_less env) out)))"

text \<open>Lines 68 to 73; \<open>relative_parent\<close> gives \<open>None\<close> where \<open>relative_to\<close> raises \<open>ValueError\<close>.\<close>

definition out_dir_for :: "batch_env \<Rightarrow> pystr \<Rightarrow> pystr \<Rightarrow> pystr \<Rightarrow> pystr" where
  "out_dir_for env input_path output_base p =
     (case relative_parent env p input_path of
        Some rel \<Rightarrow> join_path env output_base rel
      | None \<Rightarrow> output_base)"

text \<open>
  Lines 85 to 98: the loop over the completed futures, with the counters it updates. A
  result dictionary always holds its three keys, so the defaults of \<open>result.get\<close> are not
  used. An exception of the callback is not caught, nor is a \<open>BaseExn\<close> of \<open>fut.result()\<close>.
\<close>

fun collect ::
  "batch_env \<Rightarrow> progress_callback option \<Rightarrow> nat \<Rightarrow> (pystr \<times> pystr) list \<Rightarrow>
   nat \<times> (pystr \<times> pystr option) list \<times> nat \<Rightarrow>
   event list \<times> (nat \<times> (pystr \<times> pystr option) list) outcome" where
  "collect env cb n_total [] (success_count, failed, completed) = ([], Inr (success_count, failed))"
| "collect env cb n_total (task # futs) (success_count, failed, completed) =
     (case except_exception
             (and_then (future_result env task) (\<lambda>r.
                Inr (if success r then (Some r, success_count + 1, failed)
                     else (Some r, success_count, failed @ [(path r, error r)]))))
             (\<lambda>msg. Inr (None, success_count, failed @ [(fst task, Some msg)])) of
        Inl e \<Rightarrow> ([], Inl e)
      | Inr (result, success_count, failed) \<Rightarrow>
          (let completed = completed + 1
           in case cb of
                None \<Rightarrow> collect env cb n_total futs (success_count, failed, completed)
              | Some f \<Rightarrow>
                  (case f completed n_total result of
                     Inl e \<Rightarrow> ([Progress completed n_total result], Inl e)
                   | Inr _ \<Rightarrow>
                       (let (evs, r) =
                              collect env cb n_total futs (success_count, failed, completed)
                        in (Progress completed n_total result # evs, r)))))"

definition run_conversion ::
  "batch_env \<Rightarrow> pystr \<Rightarrow> pystr \<Rightarrow> bool \<Rightarrow> progress_callback option \<Rightarrow>
   event list \<times> (nat \<times> (pystr \<times> pystr option) list) outcome" where
  "run_conversion env input_path output_base mirror_structure cb =
     (case (if is_dir env input_path then find_powerpoint_files env input_path
            else Inr [input_path]) of
        Inl e \<Rightarrow> ([], Inl e)
      | Inr pptx_files \<Rightarrow>
          if pptx_files = [] then ([], Inr (0, []))
          else if \<not> libreoffice_installed env then
            ([CheckLibreOffice],
             Inl (Exn (py ''LibreOffice was not found. Please install it or set LIBREOFFICE_PATH.'')))
          else
            (case resolve_path env output_base of
               Inl e \<Rightarrow> ([CheckLibreOffice], Inl e)
             | Inr output_base \<Rightarrow>
                 (case mkdir env output_base of
                    Inl e \<Rightarrow> ([CheckLibreOffice, MakeDirs output_base], Inl e)
                  | Inr _ \<Rightarrow>
                      (let workers = max_workers (cpu_count env) (length pptx_files);
                           tasks =
                             (if mirror_structure \<and> is_dir env input_path
                              then map (\<lambda>p. (p, out_dir_for env input_path output_base p))
                                     pptx_files
                              else map (\<lambda>p. (p, output_base)) pptx_files);
                           n_total = length tasks;
                           (evs, r) = collect env cb n_total (completion_order env tasks) (0, [], 0)
                       in ([CheckLibreOffice, MakeDirs output_base, StartPool workers]
                           @ map (\<lambda>(p, out). Submit p out) tasks @ evs, r)))))"

section \<open>Example surroundings\<close>

text \<open>
  A run in which every collaborator returns, the renderer reports that it produced no
  document, and neither reader finds a slide.
\<close>

definition render_fails_env :: pipeline_env where
  "render_fails_env =
     \<lparr>resolve = Inr, path_stem = (\<lambda>p. p), new_markitdown = Inr (\<lambda>p. Inr None),
      convert_pptx_to_pdf = (\<lambda>p out. Inr None), set_pdf_metadata = (\<lambda>pdf t s. Inr ()),
      get_slide_count = (\<lambda>p. Inr 0), get_pdf_page_count = (\<lambda>p. Inr 0),
      get_speaker_notes = (\<lambda>p. Inr []), md_path_of = (\<lambda>out stem. out @ stem),
      write_text = (\<lambda>p t. Inr ()), import_converter = Inr ()\<rparr>"

text \<open>The same run, except that the constructor \<open>MarkItDown()\<close> raises.\<close>

definition no_extractor_env :: pipeline_env where
  "no_extractor_env =
     render_fails_env\<lparr>new_markitdown := Inl (Exn (py ''MarkItDown() failed''))\<rparr>"

text \<open>A run in which the renderer produces a document and the presentation has one slide.\<close>

definition one_slide_env :: pipeline_env where
  "one_slide_env =
     render_fails_env\<lparr>convert_pptx_to_pdf := (\<lambda>p out. Inr (Some (out @ py ''/a.pdf''))),
                      get_slide_count := (\<lambda>p. Inr 1)\<rparr>"

text \<open>
  The one-slide run on a full disk: writing the Markdown file raises an \<open>OSError\<close>.
\<close>

definition write_fails_env :: pipeline_env where
  "write_fails_env =
     one_slide_env\<lparr>write_text := (\<lambda>p t. Inl (Exn (py ''No space left on device'')))\<rparr>"

text \<open>
  The one-slide run out of memory: writing raises a \<open>MemoryError\<close>, whose text is empty.
\<close>

definition out_of_memory_env :: pipeline_env where
  "out_of_memory_env = one_slide_env\<lparr>write_text := (\<lambda>p t. Inl (Exn []))\<rparr>"

text \<open>The one-slide run interrupted from the keyboard while the file is written.\<close>

definition interrupted_env :: pipeline_env where
  "interrupted_env = one_slide_env\<lparr>write_text := (\<lambda>p t. Inl (BaseExn []))\<rparr>"

text \<open>A run in which the path \<open>loop\<close> cannot be resolved.\<close>

definition broken_path_env :: pipeline_env where
  "broken_path_env =
     render_fails_env\<lparr>resolve :=
       (\<lambda>p. if p = py ''loop'' then Inl (Exn (py ''Symlink loop from loop'')) else Inr p)\<rparr>"

text \<open>
  A batch over a directory that holds one text file and no presentation, on a machine
  without LibreOffice.
\<close>

definition empty_dir_env :: batch_env where
  "empty_dir_env =
     \<lparr>is_dir = (\<lambda>p. True), rglob = (\<lambda>p. Inr [p @ py ''/notes.txt'']),
      is_file = (\<lambda>p. True), suffix_lower = (\<lambda>p. py ''.txt''),
      path_less = (\<lambda>a b. length a < length b),
      libreoffice_installed = False, resolve_path = Inr, mkdir = (\<lambda>p. Inr ()),
      cpu_count = Some 4, relative_parent = (\<lambda>p root. None), join_path = (\<lambda>a b. a @ b),
      completion_order = (\<lambda>tasks. tasks),
      future_result = (\<lambda>task. Inl (Exn (py ''worker crashed'')))\<rparr>"

section \<open>Properties of strings\<close>

lemma lstrip_decomp: "s = takeWhile isspace s @ lstrip s"
  by (simp add: lstrip_def)

lemma rstrip_decomp: "s = rstrip s @ rev (takeWhile isspace (rev s))"
proof -
  have "rev (dropWhile isspace (rev s)) @ rev (takeWhile isspace (rev s))
          = rev (takeWhile isspace (rev s) @ dropWhile isspace (rev s))"
    by (simp only: rev_append)
  also have "\<dots> = s"
    by (simp only: takeWhile_dropWhile_id rev_rev_ident)
  finally show ?thesis
    by (simp add: rstrip_def)
qed

lemma strip_decomp:
  "\<exists>a b. s = a @ strip s @ b \<and> (\<forall>c\<in>set a. isspace c) \<and> (\<forall>c\<in>set b. isspace c)"
proof -
  let ?a = "takeWhile isspace s"
  let ?b = "rev (takeWhile isspace (rev (lstrip s)))"
  have "lstrip s = strip s @ ?b"
    unfolding strip_def by (rule rstrip_decomp)
  then have "s = ?a @ strip s @ ?b"
    using lstrip_decomp [of s] by simp
  moreover have "\<forall>c\<in>set ?a. isspace c"
    by (auto dest: set_takeWhileD)
  moreover have "\<forall>c\<in>set ?b. isspace c"
    by (auto dest: set_takeWhileD)
  ultimately show ?thesis by blast
qed

lemma rstrip_idem: "rstrip (rstrip t) = rstrip t"
  by (simp add: rstrip_def)

lemma lstrip_rstrip_lstrip: "lstrip (rstrip (lstrip s)) = rstrip (lstrip s)"
proof (cases "rstrip (lstrip s) = []")
  case True
  then show ?thesis by (simp add: lstrip_def)
next
  case False
  let ?t = "lstrip s"
  have "?t = rstrip ?t @ rev (takeWhile isspace (rev ?t))"
    by (rule rstrip_decomp)
  with False have hd: "hd (rstrip ?t) = hd ?t" and ne: "?t \<noteq> []"
    by (metis hd_append2, metis append_Nil rstrip_def rev.simps(1) dropWhile.simps(1))
  from ne have "\<not> isspace (hd ?t)"
    unfolding lstrip_def by (rule hd_dropWhile)
  with hd False show ?thesis
    by (simp add: lstrip_def dropWhile_eq_self_iff)
qed

lemma trimmed_strip: "trimmed (strip s)"
  by (simp add: trimmed_def strip_def lstrip_rstrip_lstrip rstrip_idem)

lemma trimmed_Nil: "trimmed []"
  by (simp add: trimmed_def strip_def lstrip_def rstrip_def)

section \<open>Properties of the segmenter\<close>

lemmas segmenter_eval =
  py_def split_markdown_by_slides_def strip_def lstrip_def rstrip_def isspace_def
  starts_heading_def NL_def HASH_def intro_led_def header_led_def py_upto_def py_repeat_def
  trimmed_def upt_rec

lemma pad_result_eq: "pad_result r n = r @ replicate (nat n - length r) []"
proof (induction r n rule: pad_result.induct)
  case (1 result slide_count)
  show ?case
  proof (cases "int (length result) < slide_count")
    case True
    then have "nat slide_count - length result = Suc (nat slide_count - Suc (length result))"
      by linarith
    with True 1 show ?thesis
      by (subst pad_result.simps) (simp add: replicate_app_Cons_same)
  next
    case False
    then show ?thesis
      by (subst pad_result.simps) simp
  qed
qed

lemma length_header_led: "1 \<le> n \<Longrightarrow> length (header_led parts n) = nat n"
  by (auto simp: header_led_def py_upto_def pad_result_eq)

lemma length_intro_led: "length (intro_led parts n) = nat n"
  by (simp add: intro_led_def)

lemma split_nonpositive:
  "n \<le> 0 \<Longrightarrow> split_markdown_by_slides b n = (if n = 0 then [] else [[]])"
  by (auto simp: split_markdown_by_slides_def py_repeat_def max_def)

lemma split_blank:
  "1 \<le> n \<Longrightarrow> strip b = [] \<Longrightarrow> split_markdown_by_slides b n = replicate (nat n) []"
  by (auto simp: split_markdown_by_slides_def py_repeat_def Let_def max_def)

lemma length_split: "1 \<le> n \<Longrightarrow> length (split_markdown_by_slides b n) = nat n"
  by (auto simp: split_markdown_by_slides_def py_repeat_def Let_def max_def
      length_header_led length_intro_led)

text \<open>
  C1, as the code has it. For a slide count of at least one the result has exactly that many
  entries, all empty when the blob is empty or only whitespace. A slide count of zero gives
  the empty list. A negative slide count does not give the empty list: the guard
  \<open>max(1, slide_count)\<close> of line 13 makes it the one-element list holding the empty string.
\<close>

theorem split_markdown_by_slides_length:
  "(1 \<le> n \<longrightarrow> length (split_markdown_by_slides blob n) = nat n)
   \<and> (1 \<le> n \<and> strip blob = [] \<longrightarrow> split_markdown_by_slides blob n = replicate (nat n) [])
   \<and> (n = 0 \<longrightarrow> split_markdown_by_slides blob n = [])
   \<and> (n < 0 \<longrightarrow> split_markdown_by_slides blob n = [[]])"
  by (simp add: length_split split_blank split_nonpositive)

theorem split_markdown_by_slides_length_witness:
  "length (split_markdown_by_slides (py ''a\<newline># b'') 3) = 3
   \<and> split_markdown_by_slides (py ''  '') 2 = [[], []]
   \<and> split_markdown_by_slides (py ''a'') 0 = []
   \<and> split_markdown_by_slides (py ''a'') (- 2) = [[]]"
proof -
  have s: "strip (py ''  '') = []"
    by (simp add: py_def strip_def lstrip_def rstrip_def isspace_def)
  show ?thesis
    using split_markdown_by_slides_length [of 3 "py ''a\<newline># b''"]
      split_markdown_by_slides_length [of 2 "py ''  ''"]
      split_markdown_by_slides_length [of 0 "py ''a''"]
      split_markdown_by_slides_length [of "- 2" "py ''a''"] s
    by (simp add: numeral_2_eq_2)
qed

text \<open>
  C1 as the spec words it fails for a negative slide count: the result is not the empty
  sequence.
\<close>

theorem split_negative_count_counterexample:
  "(- 1 :: int) \<le> 0 \<and> split_markdown_by_slides (py ''x'') (- 1) \<noteq> []"
  by (simp add: split_nonpositive)

text \<open>
  C4 as the spec words it fails: on the input of Scenario 3 the segmenter does not return the
  parts with their heading markers removed.
\<close>

theorem split_scenario_3_counterexample:
  "split_markdown_by_slides
     (py ''Intro text\<newline># Slide One\<newline>body1\<newline># Slide Two\<newline>body2'') 3
   \<noteq> [py ''Intro text'', py ''Slide One\<newline>body1'', py ''Slide Two\<newline>body2'']"
  by (simp add: segmenter_eval)

text \<open>
  C4, as the code has it: on the inputs of Scenarios 3 and 4 every heading-led part is
  returned with its heading marker \<open>#\<close> still in front; \<open>strip\<close> removes whitespace only.
\<close>

theorem split_scenarios_keep_markers:
  "split_markdown_by_slides
     (py ''Intro text\<newline># Slide One\<newline>body1\<newline># Slide Two\<newline>body2'') 3
   = [py ''Intro text'', py ''# Slide One\<newline>body1'', py ''# Slide Two\<newline>body2'']
   \<and> split_markdown_by_slides
     (py ''# A\<newline>x\<newline># B\<newline>y\<newline># C\<newline>z\<newline># D\<newline>w'') 2
   = [py ''# A\<newline>x'', py ''# B\<newline>y'']"
  by (simp add: segmenter_eval)

text \<open>
  Every part that goes through \<open>strip\<close> is trimmed: all strings of the heading-led case, and
  all strings but the first of the leading-text case.
\<close>

lemma header_led_trimmed:
  "1 \<le> n \<Longrightarrow> \<forall>s\<in>set (header_led parts n). trimmed s"
  by (auto simp: header_led_def pad_result_eq py_upto_def trimmed_strip trimmed_Nil
      dest: in_set_takeD)

lemma intro_led_rest_trimmed:
  "0 < i \<Longrightarrow> i < nat n \<Longrightarrow> trimmed (intro_led parts n ! i)"
  by (simp add: intro_led_def trimmed_strip trimmed_Nil)

lemma split_rest_trimmed:
  assumes "1 \<le> n" and "0 < i" and "i < nat n"
  shows "trimmed (split_markdown_by_slides blob n ! i)"
proof -
  have h: "trimmed (header_led parts n ! i)" for parts
  proof -
    from assms have "header_led parts n ! i \<in> set (header_led parts n)"
      by (simp add: length_header_led)
    with header_led_trimmed [OF assms(1)] show ?thesis by blast
  qed
  show ?thesis
    using assms h
    by (simp add: split_markdown_by_slides_def Let_def py_repeat_def trimmed_Nil
        intro_led_rest_trimmed)
qed

text \<open>
  C5 at a blob with a blank line between the leading text and the first heading, for two
  slides: the first returned string is the untrimmed first part, with its trailing newline.
  Line 29 appends \<open>parts[0]\<close> as it is, where lines 31, 43 and 45 append \<open>p.strip()\<close>.
\<close>

theorem split_intro_not_trimmed:
  "split_markdown_by_slides (py ''Intro\<newline>\<newline># A\<newline>x'') 2
     = [py ''Intro\<newline>'', py ''# A\<newline>x'']
   \<and> \<not> trimmed (split_markdown_by_slides (py ''Intro\<newline>\<newline># A\<newline>x'') 2 ! 0)"
  by (simp add: segmenter_eval)

section \<open>Properties of the annotation normalization\<close>

lemma normalize_notes_eq:
  "1 \<le> n \<Longrightarrow> normalize_notes notes n =
     (if n \<le> int (length notes) then take (nat n) notes
      else notes @ replicate (nat n - length notes) [])"
  by (auto simp: normalize_notes_def py_upto_def py_repeat_def Let_def nat_diff_distrib')

text \<open>
  C6: for a target of at least one, the normalized annotation list has exactly that length;
  its first \<open>min(K, N)\<close> entries are those of the raw list in order; it is the raw list cut
  to its first \<open>N\<close> entries when \<open>K \<ge> N\<close>, and the raw list followed by empty strings when
  \<open>K < N\<close>.
\<close>

theorem normalize_notes_length:
  assumes "1 \<le> n"
  shows "length (normalize_notes notes n) = nat n
    \<and> take (min (length notes) (nat n)) (normalize_notes notes n)
        = take (min (length notes) (nat n)) notes
    \<and> (n \<le> int (length notes) \<longrightarrow> normalize_notes notes n = take (nat n) notes)
    \<and> (int (length notes) < n \<longrightarrow>
         normalize_notes notes n = notes @ replicate (nat n - length notes) [])"
  using assms by (auto simp: normalize_notes_eq min_def)

theorem normalize_notes_length_witness:
  "(1::int) \<le> 2 \<and> (1::int) \<le> 3
   \<and> normalize_notes [py ''a'', py ''b'', py ''c''] 2 = [py ''a'', py ''b'']
   \<and> normalize_notes [py ''a''] 3 = [py ''a'', [], []]"
  using normalize_notes_length [of 2 "[py ''a'', py ''b'', py ''c'']"]
    normalize_notes_length [of 3 "[py ''a'']"]
  by (simp add: numeral_2_eq_2 numeral_3_eq_3)

section \<open>Properties of the worker count\<close>

text \<open>
  C7 as the spec words it fails on a machine with one processor: one worker is started,
  which is more than \<open>min(P - 1, F) = 0\<close>.
\<close>

theorem max_workers_counterexample:
  "(1::int) \<le> 1 \<and> (1::nat) \<le> 1 \<and> \<not> max_workers (Some 1) 1 \<le> min (1 - 1) (int 1)"
  by (simp add: max_workers_def)

text \<open>
  C7, as the code has it: for \<open>P \<ge> 1\<close> processors and \<open>F \<ge> 1\<close> files the worker count is
  \<open>min(max(1, P - 1), F)\<close>; it is at least one and at most \<open>F\<close>, and at most
  \<open>min(P - 1, F)\<close> when there are at least two processors.
\<close>

theorem max_workers_bounds:
  assumes "1 \<le> p" and "1 \<le> f"
  shows "max_workers (Some p) f = min (max 1 (p - 1)) (int f)
    \<and> 1 \<le> max_workers (Some p) f
    \<and> max_workers (Some p) f \<le> int f
    \<and> (2 \<le> p \<longrightarrow> max_workers (Some p) f \<le> min (p - 1) (int f))"
  using assms by (auto simp: max_workers_def Let_def)

theorem max_workers_bounds_witness:
  "(1::int) \<le> 1 \<and> (1::nat) \<le> 5
   \<and> max_workers (Some 1) 5 = 1 \<and> max_workers (Some 8) 3 = 3 \<and> max_workers (Some 4) 9 = 3"
  using max_workers_bounds [of 1 5] max_workers_bounds [of 8 3] max_workers_bounds [of 4 9]
  by simp

section \<open>Properties of the assembler's sections\<close>

lemma ensure_sections_eq:
  "1 \<le> n \<Longrightarrow> ensure_sections bs n =
     (if n < int (length bs) then take (nat n) bs
      else bs @ replicate (nat n - length bs) [])"
  by (auto simp: ensure_sections_def py_upto_def py_repeat_def Let_def nat_diff_distrib')

lemma length_ensure_sections: "1 \<le> n \<Longrightarrow> length (ensure_sections bs n) = nat n"
  by (auto simp: ensure_sections_eq)

lemma decimal_digit: "n < 10 \<Longrightarrow> decimal n = [48 + n]"
  by (subst decimal.simps) simp

lemma zip_enumerate:
  "zip [1..<Suc (length xs)] xs = map (\<lambda>i. (Suc i, xs ! i)) [0..<length xs]"
  by (rule nth_equalityI) (simp_all del: upt_Suc)

lemma ensure_sections_nth:
  assumes "1 \<le> n" and "i < nat n"
  shows "ensure_sections bs n ! i = (if i < length bs then bs ! i else [])"
  using assms by (auto simp: ensure_sections_eq nth_append)

lemma body_blocks_eq:
  assumes "1 \<le> n"
  shows "body_blocks r (ensure_sections bs n) =
    map (\<lambda>i. slide_block r (Suc i, if i < length bs then bs ! i else [])) [0..<nat n]"
proof -
  let ?S = "ensure_sections bs n"
  have len: "length ?S = nat n"
    using assms by (rule length_ensure_sections)
  have "body_blocks r ?S = map (slide_block r) (map (\<lambda>i. (Suc i, ?S ! i)) [0..<length ?S])"
    by (simp only: body_blocks_def zip_enumerate)
  also have "\<dots> = map (\<lambda>i. slide_block r (Suc i, ?S ! i)) [0..<nat n]"
    by (simp add: len o_def)
  also have "\<dots> = map (\<lambda>i. slide_block r (Suc i, if i < length bs then bs ! i else []))
                      [0..<nat n]"
    using assms by (intro map_cong refl) (simp add: ensure_sections_nth)
  finally show ?thesis .
qed

lemma ensure_sections_take:
  "1 \<le> n \<Longrightarrow> n < int (length bs) \<Longrightarrow> ensure_sections (take (nat n) bs) n = ensure_sections bs n"
  by (simp add: ensure_sections_eq)

lemma ensure_sections_pad:
  "1 \<le> n \<Longrightarrow> int (length bs) < n \<Longrightarrow>
     ensure_sections (bs @ replicate (nat n - length bs) []) n = ensure_sections bs n"
  by (simp add: ensure_sections_eq)

text \<open>
  C10: for a slide count \<open>N \<ge> 1\<close> and a section list of any length \<open>K\<close>, the text that
  \<open>build_markdown\<close> returns is the trimmed join of the front matter and of exactly \<open>N\<close>
  blocks, one for each slide \<open>i\<close> from \<open>1\<close> to \<open>N\<close>, made of the embed reference of page
  \<open>i\<close> and of section \<open>i\<close>, or of the empty section when \<open>i > K\<close>. So the text is the one
  returned for the first \<open>N\<close> sections when \<open>K > N\<close>, and the one returned for the sections
  followed by \<open>N - K\<close> empty strings when \<open>K < N\<close>.
\<close>

theorem build_markdown_section_count:
  assumes "1 \<le> n"
  shows "build_markdown b n notes bs title =
           strip (join_lines (frontmatter_lines title notes
             @ concat (map (\<lambda>i. slide_block (b @ py ''.pdf'')
                               (Suc i, if i < length bs then bs ! i else []))
                          [0..<nat n])))
           @ [NL]
    \<and> (n < int (length bs) \<longrightarrow>
         build_markdown b n notes bs title = build_markdown b n notes (take (nat n) bs) title)
    \<and> (int (length bs) < n \<longrightarrow>
         build_markdown b n notes bs title
           = build_markdown b n notes (bs @ replicate (nat n - length bs) []) title)"
  using assms
  by (simp add: build_markdown_def build_lines_def body_blocks_eq [symmetric]
      ensure_sections_take ensure_sections_pad)

theorem build_markdown_section_count_witness:
  "(1::int) \<le> 2
   \<and> build_markdown (py ''b'') 2 [] [py ''x'', py ''y'', py ''z''] None
       = py ''![[b.pdf#page=1]]\<newline>\<newline>x\<newline>\<newline>\<newline>![[b.pdf#page=2]]\<newline>\<newline>y\<newline>''
   \<and> build_markdown (py ''b'') 2 [] [py ''x''] None
       = py ''![[b.pdf#page=1]]\<newline>\<newline>x\<newline>\<newline>\<newline>![[b.pdf#page=2]]\<newline>''"
  using build_markdown_section_count [of 2 "py ''b''" "[]" "[py ''x'', py ''y'', py ''z'']" None]
    build_markdown_section_count [of 2 "py ''b''" "[]" "[py ''x'']" None]
  by (simp add: frontmatter_lines_def slide_block_def embed_line_def decimal_digit py_def
      strip_def lstrip_def rstrip_def isspace_def NL_def upt_rec)

section \<open>The round trip of the embed references\<close>

lemma has_opener_Cons_iff:
  "has_opener (a # s) \<longleftrightarrow> (a = 33 \<and> prefix [91, 91] s) \<or> has_opener s"
  by (cases s rule: has_opener.cases) auto

lemma has_opener_append_left: "has_opener u \<Longrightarrow> has_opener (v @ u)"
  by (induction v) (auto simp: has_opener_Cons_iff)

lemma has_opener_append_right: "has_opener u \<Longrightarrow> has_opener (u @ w)"
  by (induction u) (auto simp: has_opener_Cons_iff)

lemma has_opener_strip: "has_opener (strip s) \<Longrightarrow> has_opener s"
proof -
  assume h: "has_opener (strip s)"
  obtain a b where s: "s = a @ strip s @ b"
    using strip_decomp by blast
  from h have "has_opener (a @ strip s @ b)"
    by (intro has_opener_append_left has_opener_append_right)
  with s show ?thesis by simp
qed

lemma embed_at_not_bang: "c \<noteq> 33 \<Longrightarrow> embed_at (33 # q) (c # t) = None"
  by (simp add: embed_at_def)

lemma parse_skip_no_bang:
  "33 \<notin> set w \<Longrightarrow> parse_embeds (33 # q) (w @ x) = parse_embeds (33 # q) x"
  by (induction w) (auto simp: embed_at_not_bang)

lemma no_closer_prefix: "93 \<notin> set d \<Longrightarrow> \<not> prefix [93, 93] d"
  by (cases d) auto

lemma embed_at_needs_closer:
  assumes "embed_at pre text = Some n"
  shows "93 \<in> set text"
proof (rule ccontr)
  assume "93 \<notin> set text"
  then have "93 \<notin> set (dropWhile isdigit (drop (length pre) text))"
    by (auto dest: set_dropWhileD in_set_dropD)
  then have "\<not> prefix [93, 93] (dropWhile isdigit (drop (length pre) text))"
    by (rule no_closer_prefix)
  with assms show False
    by (simp add: embed_at_def py_def split: if_splits)
qed

lemma parse_no_closer: "93 \<notin> set w \<Longrightarrow> parse_embeds pre w = []"
proof (induction w)
  case Nil
  show ?case by simp
next
  case (Cons a w)
  then have "embed_at pre (a # w) = None"
    using embed_at_needs_closer [of pre "a # w"] by (cases "embed_at pre (a # w)") auto
  with Cons show ?case by simp
qed

lemma embed_at_append_no_closer:
  assumes "93 \<notin> set w"
  shows "embed_at pre (y @ w) = embed_at pre y"
proof (cases "prefix pre y")
  case True
  then obtain r where y: "y = pre @ r"
    by (auto simp: prefix_def)
  show ?thesis
  proof (cases "\<forall>c\<in>set r. isdigit c")
    case True
    then have d1: "dropWhile isdigit (r @ w) = dropWhile isdigit w"
      and d0: "dropWhile isdigit r = []"
      by simp_all
    from assms have n0: "\<not> prefix [93, 93] (dropWhile isdigit w)"
      by (intro no_closer_prefix) (auto dest: set_dropWhileD)
    show ?thesis
      by (simp add: embed_at_def y py_def Let_def d0 d1 n0)
  next
    case False
    then obtain x where x: "x \<in> set r" "\<not> isdigit x"
      by blast
    then have tw: "takeWhile isdigit (r @ w) = takeWhile isdigit r"
      and dw: "dropWhile isdigit (r @ w) = dropWhile isdigit r @ w"
      by simp_all
    from x have ne: "dropWhile isdigit r \<noteq> []"
      by (auto simp: dropWhile_eq_Nil_conv)
    have "prefix [93, 93] (dropWhile isdigit r @ w) = prefix [93, 93] (dropWhile isdigit r)"
    proof (cases "dropWhile isdigit r")
      case Nil
      with ne show ?thesis by simp
    next
      case (Cons a d)
      moreover from assms have "\<not> prefix [93] w"
        by (cases w) auto
      ultimately show ?thesis
        by (cases d) auto
    qed
    then show ?thesis
      by (simp add: embed_at_def y tw dw py_def Let_def)
  qed
next
  case False
  show ?thesis
  proof (cases "prefix pre (y @ w)")
    case True
    with False obtain us where us: "pre = y @ us" "prefix us w"
      by (auto simp: prefix_append)
    then have "drop (length pre) (y @ w) = drop (length us) w"
      by simp
    moreover from assms have "\<not> prefix [93, 93] (dropWhile isdigit (drop (length us) w))"
      by (intro no_closer_prefix) (auto dest: set_dropWhileD in_set_dropD)
    ultimately show ?thesis
      using False by (simp add: embed_at_def py_def Let_def)
  next
    case F: False
    with False show ?thesis
      by (simp add: embed_at_def)
  qed
qed

lemma parse_append_no_closer:
  "93 \<notin> set w \<Longrightarrow> parse_embeds pre (x @ w) = parse_embeds pre x"
proof (induction x)
  case Nil
  then show ?case by (simp add: parse_no_closer)
next
  case (Cons a x)
  then show ?case
    using embed_at_append_no_closer [of w pre "a # x"] by (simp split: option.splits)
qed

lemma not_space_bang: "\<not> isspace 33" and not_space_closer: "\<not> isspace 93"
  by (simp_all add: isspace_def)

lemma parse_strip:
  "parse_embeds (33 # q) (strip t @ [NL]) = parse_embeds (33 # q) t"
proof -
  obtain a b where t: "t = a @ strip t @ b"
    and a: "\<forall>c\<in>set a. isspace c" and b: "\<forall>c\<in>set b. isspace c"
    using strip_decomp by blast
  from a have a': "33 \<notin> set a" using not_space_bang by blast
  from b have b': "93 \<notin> set b" using not_space_closer by blast
  have "parse_embeds (33 # q) t = parse_embeds (33 # q) (a @ (strip t @ b))"
    using t by simp
  also have "\<dots> = parse_embeds (33 # q) (strip t @ b)"
    using a' by (rule parse_skip_no_bang)
  also have "\<dots> = parse_embeds (33 # q) (strip t)"
    using b' by (rule parse_append_no_closer)
  also have "\<dots> = parse_embeds (33 # q) (strip t @ [NL])"
    by (rule parse_append_no_closer [symmetric]) (simp add: NL_def)
  finally show ?thesis by simp
qed

lemma join_lines_NL:
  "ls \<noteq> [] \<Longrightarrow> join_lines ls @ [NL] = concat (map (\<lambda>l. l @ [NL]) ls)"
  by (induction ls rule: join_lines.induct) auto

lemma parse_join_lines:
  "parse_embeds pre (join_lines ls) = parse_embeds pre (concat (map (\<lambda>l. l @ [NL]) ls))"
proof (cases "ls = []")
  case True
  then show ?thesis by simp
next
  case False
  have "parse_embeds pre (join_lines ls) = parse_embeds pre (join_lines ls @ [NL])"
    by (rule parse_append_no_closer [symmetric]) (simp add: NL_def)
  with False show ?thesis
    by (simp add: join_lines_NL)
qed

lemma opener_of_prefix: "prefix (33 # 91 # 91 # q) (s @ NL # t) \<Longrightarrow> has_opener s"
  by (cases s rule: has_opener.cases) (auto simp: NL_def)

lemma embed_at_no_opener:
  "\<not> has_opener s \<Longrightarrow> embed_at (33 # 91 # 91 # q) (s @ NL # t) = None"
  using opener_of_prefix [of q s t] by (auto simp: embed_at_def)

lemma parse_skip_line:
  "\<not> has_opener s \<Longrightarrow>
     parse_embeds (33 # 91 # 91 # q) (s @ NL # t) = parse_embeds (33 # 91 # 91 # q) t"
proof (induction s)
  case Nil
  show ?case by (simp add: embed_at_not_bang NL_def)
next
  case (Cons a s)
  then have "\<not> has_opener s"
    by (simp add: has_opener_Cons_iff)
  moreover have "embed_at (33 # 91 # 91 # q) ((a # s) @ NL # t) = None"
    using Cons.prems by (rule embed_at_no_opener)
  ultimately show ?case
    using Cons.IH by simp
qed

lemma parse_skip_lines:
  "\<forall>l\<in>set ls. \<not> has_opener l \<Longrightarrow>
     parse_embeds (33 # 91 # 91 # q) (concat (map (\<lambda>l. l @ [NL]) ls) @ t)
       = parse_embeds (33 # 91 # 91 # q) t"
  by (induction ls) (simp_all add: parse_skip_line)


lemma decimal_digits: "c \<in> set (decimal n) \<Longrightarrow> isdigit c"
proof (induction n arbitrary: c rule: decimal.induct)
  case (1 n)
  show ?case
  proof (cases "n < 10")
    case True
    with "1.prems" show ?thesis
      by (subst (asm) decimal.simps) (simp add: isdigit_def)
  next
    case False
    with "1.prems" have "c \<in> set (decimal (n div 10)) \<or> c = 48 + n mod 10"
      by (subst (asm) decimal.simps) auto
    then show ?thesis
      using "1.IH" [OF False] by (auto simp: isdigit_def)
  qed
qed

lemma decimal_nonempty: "decimal n \<noteq> []"
  by (subst decimal.simps) simp

lemma read_decimal_snoc: "read_decimal (ds @ [c]) = 10 * read_decimal ds + (c - 48)"
  by (simp add: read_decimal_def)

lemma read_decimal_decimal: "read_decimal (decimal n) = n"
proof (induction n rule: decimal.induct)
  case (1 n)
  show ?case
  proof (cases "n < 10")
    case True
    then show ?thesis
      by (subst decimal.simps) (simp add: read_decimal_def)
  next
    case False
    then have "read_decimal (decimal n) = 10 * read_decimal (decimal (n div 10)) + n mod 10"
      by (subst decimal.simps) (simp add: read_decimal_snoc)
    with 1 False show ?thesis by simp
  qed
qed

lemma embed_at_embed_line: "embed_at pre (pre @ decimal n @ 93 # 93 # rest) = Some n"
proof -
  have nd: "\<not> isdigit 93"
    by (simp add: isdigit_def)
  have tw: "takeWhile isdigit (decimal n @ 93 # 93 # rest) = decimal n"
    using nd by (simp add: decimal_digits)
  have dw: "dropWhile isdigit (decimal n @ 93 # 93 # rest) = 93 # 93 # rest"
    using nd by (simp add: decimal_digits)
  show ?thesis
    by (simp add: embed_at_def Let_def py_def tw dw decimal_nonempty read_decimal_decimal)
qed

lemma no_inner_match:
  assumes nl: "NL \<notin> set pre" and ne: "pre \<noteq> []" and l: "last pre = 61"
    and d: "61 \<notin> set d" and u: "suffix u (tl (pre @ d))"
  shows "\<not> prefix pre (u @ NL # t)"
proof
  assume p: "prefix pre (u @ NL # t)"
  show False
  proof (cases "prefix pre u")
    case True
    then obtain w where w: "u = pre @ w"
      by (auto simp: prefix_def)
    from ne l have "pre = butlast pre @ [61]"
      by (metis append_butlast_last_id)
    with w have "u = butlast pre @ (61 # w)"
      by (metis append.assoc append_Cons append_Nil)
    then have "suffix (61 # w) u"
      by (rule suffixI)
    moreover have "suffix (tl (pre @ d)) (pre @ d)"
      by simp
    ultimately have s1: "suffix (61 # w) (pre @ d)"
      using u by (meson suffix_order.trans)
    have s2: "suffix d (pre @ d)"
      by (simp add: suffix_def)
    from u have "length u \<le> length (tl (pre @ d))"
      by (rule suffix_length_le)
    with w ne have len: "length (61 # w) \<le> length d"
      by (cases pre) auto
    from s1 s2 len have "suffix (61 # w) d"
      by (rule suffix_length_suffix)
    then have "61 \<in> set d"
      by (auto simp: suffix_def)
    with d show False ..
  next
    case False
    with p obtain us where us: "pre = u @ us" "prefix us (NL # t)"
      by (auto simp: prefix_append)
    with False have "us \<noteq> []"
      by auto
    with us obtain us' where "us = NL # us'"
      by (cases us) auto
    with us have "NL \<in> set pre" by simp
    with nl show False ..
  qed
qed

lemma parse_skip_positions:
  "(\<And>u. suffix u s \<Longrightarrow> u \<noteq> [] \<Longrightarrow> embed_at pre (u @ t) = None) \<Longrightarrow>
     parse_embeds pre (s @ t) = parse_embeds pre t"
proof (induction s)
  case Nil
  show ?case by simp
next
  case (Cons a s)
  have "embed_at pre ((a # s) @ t) = None"
    by (rule Cons.prems) simp_all
  moreover have "parse_embeds pre (s @ t) = parse_embeds pre t"
    by (rule Cons.IH) (auto intro: Cons.prems suffix_ConsI)
  ultimately show ?case by simp
qed

lemma parse_embed_line:
  assumes nl: "NL \<notin> set q" and q: "q \<noteq> []" "last q = 61"
  shows "parse_embeds (33 # q) ((33 # q) @ decimal n @ 93 # 93 # NL # t)
           = n # parse_embeds (33 # q) t"
proof -
  let ?pre = "33 # q"
  let ?d = "decimal n @ [93, 93]"
  have d: "61 \<notin> set ?d"
    using decimal_digits [of 61 n] by (auto simp: isdigit_def)
  have pnl: "NL \<notin> set ?pre"
    using nl by (simp add: NL_def)
  have pl: "last ?pre = 61"
    using q by simp
  have head: "embed_at ?pre (?pre @ decimal n @ 93 # 93 # NL # t) = Some n"
    by (rule embed_at_embed_line)
  have inner: "parse_embeds ?pre ((q @ ?d) @ NL # t) = parse_embeds ?pre (NL # t)"
  proof (rule parse_skip_positions)
    fix u
    assume "suffix u (q @ ?d)" and "u \<noteq> []"
    then have "suffix u (tl (?pre @ ?d))"
      by simp
    with pnl pl d have "\<not> prefix ?pre (u @ NL # t)"
      by (intro no_inner_match) simp_all
    then show "embed_at ?pre (u @ NL # t) = None"
      by (simp add: embed_at_def)
  qed
  have "parse_embeds ?pre (NL # t) = parse_embeds ?pre t"
    by (simp add: embed_at_not_bang NL_def)
  with head inner show ?thesis
    by simp
qed

lemma opener_prefix: "py ''![['' @ r @ py ''#page='' = 33 # 91 # 91 # (r @ py ''#page='')"
  by (simp add: py_def)

lemma parse_slide_block:
  assumes nl: "NL \<notin> set r" and sec: "\<not> has_opener sec"
  shows "parse_embeds (py ''![['' @ r @ py ''#page='')
           (concat (map (\<lambda>l. l @ [NL]) (slide_block r (n, sec))) @ t)
         = n # parse_embeds (py ''![['' @ r @ py ''#page='') t"
proof -
  let ?q = "91 # 91 # (r @ py ''#page='')"
  let ?rest = "[[]] @ (if sec \<noteq> [] then [strip sec, []] else []) @ [[]]"
  have block: "slide_block r (n, sec) = ((33 # ?q) @ decimal n @ [93, 93]) # ?rest"
    by (simp add: slide_block_def embed_line_def py_def)
  have qnl: "NL \<notin> set ?q"
    using nl by (simp add: py_def NL_def)
  have ql: "?q \<noteq> []" "last ?q = 61"
    by (simp_all add: py_def)
  have rest: "\<forall>l\<in>set ?rest. \<not> has_opener l"
    using sec has_opener_strip by auto
  have "parse_embeds (33 # ?q) (concat (map (\<lambda>l. l @ [NL]) (slide_block r (n, sec))) @ t)
      = parse_embeds (33 # ?q)
          ((33 # ?q) @ decimal n @ 93 # 93 # NL # (concat (map (\<lambda>l. l @ [NL]) ?rest) @ t))"
    unfolding block by simp
  also have "\<dots> = n # parse_embeds (33 # ?q) (concat (map (\<lambda>l. l @ [NL]) ?rest) @ t)"
    using qnl ql by (rule parse_embed_line)
  also have "\<dots> = n # parse_embeds (33 # ?q) t"
    using rest by (simp only: parse_skip_lines)
  finally show ?thesis
    by (simp only: opener_prefix)
qed

lemma parse_blocks:
  assumes nl: "NL \<notin> set r"
  shows "\<forall>p\<in>set ps. \<not> has_opener (snd p) \<Longrightarrow>
     parse_embeds (py ''![['' @ r @ py ''#page='')
       (concat (map (\<lambda>l. l @ [NL]) (concat (map (slide_block r) ps))) @ t)
     = map fst ps @ parse_embeds (py ''![['' @ r @ py ''#page='') t"
proof (induction ps)
  case Nil
  show ?case by simp
next
  case (Cons p ps)
  obtain n sec where p: "p = (n, sec)"
    by (cases p)
  with Cons.prems have sec: "\<not> has_opener sec"
    by simp
  from Cons have IH: "parse_embeds (py ''![['' @ r @ py ''#page='')
       (concat (map (\<lambda>l. l @ [NL]) (concat (map (slide_block r) ps))) @ t)
     = map fst ps @ parse_embeds (py ''![['' @ r @ py ''#page='') t"
    by simp
  have "parse_embeds (py ''![['' @ r @ py ''#page='')
       (concat (map (\<lambda>l. l @ [NL]) (concat (map (slide_block r) (p # ps)))) @ t)
     = parse_embeds (py ''![['' @ r @ py ''#page='')
       (concat (map (\<lambda>l. l @ [NL]) (slide_block r (n, sec)))
        @ (concat (map (\<lambda>l. l @ [NL]) (concat (map (slide_block r) ps))) @ t))"
    by (simp add: p)
  also have "\<dots> = n # parse_embeds (py ''![['' @ r @ py ''#page='')
        (concat (map (\<lambda>l. l @ [NL]) (concat (map (slide_block r) ps))) @ t)"
    using nl sec by (rule parse_slide_block)
  finally show ?case
    using IH by (simp add: p)
qed


lemma brackets_prefix_mem: "prefix [91, 91] w \<Longrightarrow> 91 \<in> set w"
  by (cases w) auto

lemma has_opener_needs_bracket: "has_opener w \<Longrightarrow> 91 \<in> set w"
  by (induction w) (auto simp: has_opener_Cons_iff dest: brackets_prefix_mem)

lemma has_opener_no_bang: "33 \<notin> set u \<Longrightarrow> has_opener (u @ x) \<Longrightarrow> has_opener x"
  by (induction u) (auto simp: has_opener_Cons_iff)

lemma has_opener_no_bracket:
  assumes "91 \<notin> set w"
  shows "has_opener (x @ w) \<Longrightarrow> has_opener x"
proof (induction x)
  case Nil
  with assms show ?case
    using has_opener_needs_bracket [of w] by simp
next
  case (Cons a x)
  from Cons.prems have "(a = 33 \<and> prefix [91, 91] (x @ w)) \<or> has_opener (x @ w)"
    by (simp add: has_opener_Cons_iff)
  then show ?case
  proof
    assume h: "a = 33 \<and> prefix [91, 91] (x @ w)"
    have "prefix [91, 91] x"
    proof (cases x)
      case Nil
      with h assms show ?thesis by (cases w) auto
    next
      case (Cons b x')
      with h assms show ?thesis by (cases x'; cases w) auto
    qed
    with h show ?thesis
      by (simp add: has_opener_Cons_iff)
  next
    assume "has_opener (x @ w)"
    then show ?thesis
      using Cons.IH by (simp add: has_opener_Cons_iff)
  qed
qed

lemma replace_char_Cons:
  "replace_char old new (c # s) = (if c = old then new else [c]) @ replace_char old new s"
  by (simp add: replace_char_def)

lemma replace_char_bracket:
  assumes "new \<noteq> []" and "91 \<notin> set new"
  shows "prefix (91 # k) (replace_char old new s) \<Longrightarrow>
     \<exists>s'. s = 91 # s' \<and> prefix k (replace_char old new s')"
proof (cases s)
  case Nil
  assume "prefix (91 # k) (replace_char old new s)"
  with Nil show ?thesis
    by (simp add: replace_char_def)
next
  case (Cons c s')
  assume p: "prefix (91 # k) (replace_char old new s)"
  show ?thesis
  proof (cases "c = old")
    case True
    from assms obtain h n' where "new = h # n'" and "h \<noteq> 91"
      by (cases new) auto
    with p Cons True show ?thesis
      by (simp add: replace_char_Cons)
  next
    case False
    with p Cons show ?thesis
      by (simp add: replace_char_Cons)
  qed
qed

lemma replace_char_brackets:
  assumes "new \<noteq> []" and "91 \<notin> set new"
    and "prefix [91, 91] (replace_char old new s)"
  shows "prefix [91, 91] s"
proof -
  from assms obtain s' where s': "s = 91 # s'" "prefix [91] (replace_char old new s')"
    using replace_char_bracket [of new "[91]" old s] by blast
  with assms obtain s'' where "s' = 91 # s''"
    using replace_char_bracket [of new "[]" old s'] by blast
  with s' show ?thesis by simp
qed

lemma has_opener_replace_char:
  assumes "new \<noteq> []" and "91 \<notin> set new" and "33 \<notin> set new"
  shows "has_opener (replace_char old new s) \<Longrightarrow> has_opener s"
proof (induction s)
  case Nil
  then show ?case by (simp add: replace_char_def)
next
  case (Cons c s)
  show ?case
  proof (cases "c = old")
    case True
    with Cons.prems have "has_opener (new @ replace_char old new s)"
      by (simp add: replace_char_Cons)
    with assms have "has_opener (replace_char old new s)"
      using has_opener_no_bang by blast
    with Cons.IH show ?thesis
      by (simp add: has_opener_Cons_iff)
  next
    case False
    with Cons.prems have "(c = 33 \<and> prefix [91, 91] (replace_char old new s))
        \<or> has_opener (replace_char old new s)"
      by (simp add: replace_char_Cons has_opener_Cons_iff)
    then show ?thesis
      using Cons.IH replace_char_brackets [OF assms(1,2), of old s]
      by (auto simp: has_opener_Cons_iff)
  qed
qed

lemma title_line_no_opener: "\<not> has_opener v \<Longrightarrow> \<not> has_opener (title_line v)"
proof
  let ?e1 = "replace_char BACKSLASH [BACKSLASH, BACKSLASH] v"
  let ?e2 = "replace_char QUOTE [BACKSLASH, QUOTE] ?e1"
  assume v: "\<not> has_opener v" and "has_opener (title_line v)"
  then have "has_opener (py ''title: '' @ [QUOTE] @ ?e2 @ [QUOTE])"
    by (simp add: title_line_def Let_def)
  then have "has_opener ((py ''title: '' @ [QUOTE]) @ (?e2 @ [QUOTE]))"
    by simp
  then have "has_opener (?e2 @ [QUOTE])"
    by (rule has_opener_no_bang [rotated]) (simp add: py_def QUOTE_def)
  then have "has_opener ?e2"
    by (rule has_opener_no_bracket [rotated]) (simp add: QUOTE_def)
  then have "has_opener ?e1"
    by (rule has_opener_replace_char [rotated -1]) (simp_all add: QUOTE_def BACKSLASH_def)
  then have "has_opener v"
    by (rule has_opener_replace_char [rotated -1]) (simp_all add: BACKSLASH_def)
  with v show False ..
qed

lemma note_line_no_opener: "\<not> has_opener v \<Longrightarrow> \<not> has_opener (note_line v)"
proof
  let ?e1 = "replace_char BACKSLASH [BACKSLASH, BACKSLASH] v"
  let ?e2 = "replace_char QUOTE [BACKSLASH, QUOTE] ?e1"
  let ?e3 = "replace_char NL (py '' '') ?e2"
  assume v: "\<not> has_opener v" and "has_opener (note_line v)"
  then have "has_opener (py ''  - '' @ [QUOTE] @ ?e3 @ [QUOTE])"
    by (simp add: note_line_def Let_def)
  then have "has_opener ((py ''  - '' @ [QUOTE]) @ (?e3 @ [QUOTE]))"
    by simp
  then have "has_opener (?e3 @ [QUOTE])"
    by (rule has_opener_no_bang [rotated]) (simp add: py_def QUOTE_def)
  then have "has_opener ?e3"
    by (rule has_opener_no_bracket [rotated]) (simp add: QUOTE_def)
  then have "has_opener ?e2"
    by (rule has_opener_replace_char [rotated -1]) (simp_all add: py_def)
  then have "has_opener ?e1"
    by (rule has_opener_replace_char [rotated -1]) (simp_all add: QUOTE_def BACKSLASH_def)
  then have "has_opener v"
    by (rule has_opener_replace_char [rotated -1]) (simp_all add: BACKSLASH_def)
  with v show False ..
qed

lemma frontmatter_lines_no_opener:
  assumes "\<forall>t. title = Some t \<longrightarrow> \<not> has_opener t" and "\<forall>s\<in>set notes. \<not> has_opener s"
  shows "\<forall>l\<in>set (frontmatter_lines title notes). \<not> has_opener l"
proof -
  have fixed: "\<not> has_opener (py ''---'')" "\<not> has_opener (py ''speaker_notes:'')"
    by (simp_all add: py_def)
  have t: "\<not> has_opener (title_line (case title of None \<Rightarrow> [] | Some t \<Rightarrow> t))"
    using assms(1) by (intro title_line_no_opener) (simp split: option.splits)
  have n: "\<And>x. x \<in> set notes \<Longrightarrow> \<not> has_opener (note_line x)"
    using assms(2) note_line_no_opener by blast
  show ?thesis
    using fixed t n by (auto simp: frontmatter_lines_def Let_def)
qed

lemma ensure_sections_no_opener:
  assumes "1 \<le> n" and "\<forall>s\<in>set secs. \<not> has_opener s"
  shows "\<forall>s\<in>set (ensure_sections secs n). \<not> has_opener s"
  using assms by (auto simp: ensure_sections_eq dest: in_set_takeD)

text \<open>
  C9, as the code has it: when the base name holds no newline and neither the title, nor a
  speaker note, nor a section contains the opener \<open>![[\<close>, the embed references read back
  from the assembled text are exactly the pages \<open>1\<close> to \<open>N\<close> in ascending order, for every
  slide count \<open>N \<ge> 1\<close> and for section and note lists of any length.
\<close>

theorem embed_refs_round_trip:
  assumes "1 \<le> n" and "NL \<notin> set b"
    and "\<forall>s\<in>set secs. \<not> has_opener s" and "\<forall>s\<in>set notes. \<not> has_opener s"
    and "\<forall>t. title = Some t \<longrightarrow> \<not> has_opener t"
  shows "embed_refs b (build_markdown b n notes secs title) = [1..<Suc (nat n)]"
proof -
  let ?r = "b @ py ''.pdf''"
  let ?pre = "py ''![['' @ ?r @ py ''#page=''"
  let ?S = "ensure_sections secs n"
  let ?F = "frontmatter_lines title notes"
  let ?B = "concat (map (slide_block ?r) (zip [1..<Suc (length ?S)] ?S))"
  let ?nl = "\<lambda>l. l @ [NL]"
  have nl: "NL \<notin> set ?r"
    using assms(2) by (simp add: py_def NL_def)
  have S: "\<forall>p\<in>set (zip [1..<Suc (length ?S)] ?S). \<not> has_opener (snd p)"
    using ensure_sections_no_opener [OF assms(1,3)] by (auto dest: set_zip_rightD)
  have F: "\<forall>l\<in>set ?F. \<not> has_opener l"
    using assms(5,4) by (rule frontmatter_lines_no_opener)
  have len: "length ?S = nat n"
    using assms(1) by (rule length_ensure_sections)
  have "embed_refs b (build_markdown b n notes secs title)
      = parse_embeds ?pre (strip (join_lines (?F @ ?B)) @ [NL])"
    by (simp add: embed_refs_def build_markdown_def build_lines_def body_blocks_def)
  also have "\<dots> = parse_embeds ?pre (join_lines (?F @ ?B))"
    unfolding opener_prefix by (rule parse_strip)
  also have "\<dots> = parse_embeds ?pre (concat (map ?nl ?F) @ (concat (map ?nl ?B) @ []))"
    by (simp add: parse_join_lines)
  also have "\<dots> = parse_embeds ?pre (concat (map ?nl ?B) @ [])"
    unfolding opener_prefix using F by (rule parse_skip_lines)
  also have "\<dots> = map fst (zip [1..<Suc (length ?S)] ?S) @ parse_embeds ?pre []"
    using nl S by (rule parse_blocks)
  also have "\<dots> = [1..<Suc (nat n)]"
    by (simp add: len del: upt_Suc)
  finally show ?thesis .
qed

text \<open>
  C9 as the spec words it fails when a section itself holds an embed reference: the
  assembler copies the section text as it is, so for one slide two references are read
  back, to the pages 1 and 7.
\<close>

theorem embed_refs_counterexample:
  "embed_refs (py ''b'') (build_markdown (py ''b'') 1 [[]] [py ''![[b.pdf#page=7]]''] None)
     = [1, 7]"
  by (simp add: embed_refs_def build_markdown_def build_lines_def frontmatter_lines_def
      body_blocks_def slide_block_def embed_line_def ensure_sections_def py_upto_def
      py_repeat_def decimal_digit py_def strip_def lstrip_def rstrip_def isspace_def NL_def
      embed_at_def isdigit_def read_decimal_def Let_def)

theorem embed_refs_round_trip_witness:
  "(1::int) \<le> 2 \<and> NL \<notin> set (py ''deck'')
   \<and> \<not> has_opener (py ''# A'') \<and> \<not> has_opener (py ''# B'') \<and> \<not> has_opener (py ''hello'')
   \<and> \<not> has_opener (py ''deck'')
   \<and> embed_refs (py ''deck'')
        (build_markdown (py ''deck'') 2 [py ''hello''] [py ''# A'', py ''# B'']
          (Some (py ''deck''))) = [1, 2]"
  using embed_refs_round_trip [of 2 "py ''deck''" "[py ''# A'', py ''# B'']" "[py ''hello'']"
      "Some (py ''deck'')"]
  by (simp add: py_def NL_def upt_rec)

section \<open>Properties of the pipeline\<close>

lemma and_then_Inr_iff:
  "and_then m f = Inr r \<longleftrightarrow> (\<exists>x. m = Inr x \<and> f x = Inr r)"
  by (cases m) (auto simp: and_then_def)

lemma except_exception_simps:
  "except_exception (Inr x) h = Inr x"
  "except_exception (Inl (Exn msg)) h = h msg"
  "except_exception (Inl (BaseExn msg)) h = Inl (BaseExn msg)"
  by (simp_all add: except_exception_def)

lemma except_exception_cases:
  "(\<exists>x. m = Inr x) \<or> (\<exists>msg. m = Inl (Exn msg)) \<or> (\<exists>msg. m = Inl (BaseExn msg))"
proof (cases m)
  case (Inl e)
  then show ?thesis by (cases e) auto
next
  case (Inr x)
  then show ?thesis by simp
qed

lemma except_exception_Inr_iff:
  "except_exception m (\<lambda>msg. Inr (f msg)) = Inr r \<longleftrightarrow>
     m = Inr r \<or> (\<exists>msg. m = Inl (Exn msg) \<and> r = f msg)"
  using except_exception_cases [of m] by (auto simp: except_exception_simps)


lemma failure_fields: "\<not> success (failure p msg)" "error (failure p msg) = Some msg"
  by (simp_all add: failure_def)

lemma run_pipeline_failure_message:
  "run_pipeline env m p out stem = Inr r \<Longrightarrow> \<not> success r \<Longrightarrow>
     error r = Some (py ''PDF conversion failed (LibreOffice)'')
     \<or> error r = Some (py ''No slides found or invalid file'')"
  by (auto simp: run_pipeline_def and_then_Inr_iff Let_def failure_def
      split: option.splits if_splits)

lemma run_pipeline_success:
  "run_pipeline env m p out stem = Inr r \<Longrightarrow> success r \<Longrightarrow> error r = None"
  by (auto simp: run_pipeline_def and_then_Inr_iff Let_def failure_def
      split: option.splits if_splits)


lemma convert_one_Inr:
  assumes "convert_one env p out mi = Inr r"
  shows "\<exists>p' out' m'. resolve env p = Inr p' \<and> resolve env out = Inr out'
     \<and> (case mi of None \<Rightarrow> new_markitdown env | Some m \<Rightarrow> Inr m) = Inr m'
     \<and> (run_pipeline env m' p' out' (path_stem env p') = Inr r
        \<or> (\<exists>msg. run_pipeline env m' p' out' (path_stem env p') = Inl (Exn msg)
              \<and> r = failure p' msg))"
  using assms
  by (simp add: convert_one_def and_then_Inr_iff Let_def except_exception_Inr_iff)

lemma convert_one_worker_Inr:
  assumes "convert_one_worker env wm p out = Inr r"
  shows "convert_one env p out wm = Inr r \<or> (\<exists>msg. r = failure p msg)"
  using assms
  by (auto simp: convert_one_worker_def except_exception_Inr_iff and_then_Inr_iff)



lemma convert_one_invariant:
  assumes "convert_one env p out mi = Inr r"
  shows "(success r \<longrightarrow> error r = None) \<and> (\<not> success r \<longrightarrow> error r \<noteq> None)"
  using convert_one_Inr [OF assms]
  by (auto simp: failure_fields dest: run_pipeline_success run_pipeline_failure_message)

lemma convert_one_render_fails:
  "convert_one render_fails_env p out None
     = Inr (failure p (py ''PDF conversion failed (LibreOffice)''))"
  by (simp add: convert_one_def render_fails_env_def and_then_def run_pipeline_def
      except_exception_simps)

lemmas pipeline_eval =
  convert_one_def convert_one_worker_def run_pipeline_def extract_body_def and_then_def
  except_exception_simps render_fails_env_def one_slide_env_def no_extractor_env_def
  write_fails_env_def out_of_memory_env_def interrupted_env_def broken_path_env_def

lemma convert_one_one_slide:
  "convert_one one_slide_env p out None = Inr \<lparr>success = True, path = p, error = None\<rparr>"
  by (simp add: pipeline_eval)

lemma convert_one_worker_no_extractor:
  "convert_one_worker no_extractor_env None p out = Inr (failure p (py ''MarkItDown() failed''))"
  by (simp add: pipeline_eval)



text \<open>
  C3: every result record that \<open>convert_one\<close> or \<open>convert_one_worker\<close> returns has no error
  when \<open>success\<close> is true and has an error string when \<open>success\<close> is false.
\<close>

theorem conversion_result_invariant:
  "(convert_one env p out mi = Inr r \<longrightarrow>
      (success r \<longrightarrow> error r = None) \<and> (\<not> success r \<longrightarrow> error r \<noteq> None))
   \<and> (convert_one_worker env wm p out = Inr r' \<longrightarrow>
      (success r' \<longrightarrow> error r' = None) \<and> (\<not> success r' \<longrightarrow> error r' \<noteq> None))"
  using convert_one_invariant [of env p out mi r] convert_one_invariant [of env p out wm r']
    convert_one_worker_Inr [of env wm p out r']
  by (auto simp: failure_fields)

theorem conversion_result_invariant_witness:
  "convert_one one_slide_env (py ''a.pptx'') (py ''out'') None
     = Inr \<lparr>success = True, path = py ''a.pptx'', error = None\<rparr>
   \<and> convert_one_worker no_extractor_env None (py ''a.pptx'') (py ''out'')
     = Inr (failure (py ''a.pptx'') (py ''MarkItDown() failed''))
   \<and> error (failure (py ''a.pptx'') (py ''MarkItDown() failed'')) \<noteq> None"
  using conversion_result_invariant [of one_slide_env "py ''a.pptx''" "py ''out''" None
      "\<lparr>success = True, path = py ''a.pptx'', error = None\<rparr>"]
    conversion_result_invariant [of no_extractor_env "py ''a.pptx''" "py ''out''" _ _ None
      "failure (py ''a.pptx'') (py ''MarkItDown() failed'')"]
  by (simp add: convert_one_one_slide convert_one_worker_no_extractor failure_def)



section \<open>Properties of the scheduler\<close>

text \<open>
  C8: when the input is a directory in which discovery finds no file, \<open>run_conversion\<close>
  returns \<open>(0, [])\<close>, raises nothing and does nothing to the outside: it neither checks for
  the renderer nor submits a task.
\<close>

theorem run_conversion_empty:
  assumes "is_dir env input_path" and "find_powerpoint_files env input_path = Inr []"
  shows "run_conversion env input_path output_base mirror_structure cb = ([], Inr (0, []))"
  using assms by (simp add: run_conversion_def)

theorem run_conversion_empty_witness:
  "is_dir empty_dir_env (py ''slides'')
   \<and> find_powerpoint_files empty_dir_env (py ''slides'') = Inr []
   \<and> \<not> libreoffice_installed empty_dir_env
   \<and> run_conversion empty_dir_env (py ''slides'') (py ''out'') True None = ([], Inr (0, []))"
proof -
  have d: "is_dir empty_dir_env (py ''slides'')"
    and l: "\<not> libreoffice_installed empty_dir_env"
    by (simp_all add: empty_dir_env_def)
  have f: "find_powerpoint_files empty_dir_env (py ''slides'') = Inr []"
    by (simp add: find_powerpoint_files_def empty_dir_env_def and_then_def
        POWERPOINT_EXTENSIONS_def sorted_paths_def py_def)
  show ?thesis
    using run_conversion_empty [of empty_dir_env "py ''slides''" "py ''out''" True None] d l f
    by simp
qed

end
